theory Spec2Isabelle
  imports Main "HOL-Library.Sublist"
begin

section \<open>Path mapping of the MicroPython workbench\<close>

text \<open>
  A shallow embedding of the path-mapping module: \<open>normalizePath\<close>,
  \<open>applyPathMappings\<close>, \<open>reversePathMappings\<close> and \<open>getAllMappedDirectories\<close>.
  JavaScript strings are modelled as \<^typ>\<open>string\<close>; the functions only ever compare
  code units with the two separators, so the width of a code unit plays no role.
\<close>

subsection \<open>Strings\<close>

abbreviation slash :: char where
  "slash \<equiv> CHR ''/''"

abbreviation backslash :: char where
  "backslash \<equiv> CHR 0x5C"

text \<open>\<^verbatim>\<open>s.startsWith(t)\<close>, and \<^verbatim>\<open>s.slice(n)\<close> for \<open>0 \<le> n\<close>.\<close>

definition startsWith :: "string \<Rightarrow> string \<Rightarrow> bool" where
  "startsWith s t = prefix t s"

definition slice :: "string \<Rightarrow> nat \<Rightarrow> string" where
  "slice s n = drop n s"

subsection \<open>The normalizer\<close>

text \<open>\<^verbatim>\<open>p.replace(/\\/g, "/")\<close>: every backslash becomes a slash.\<close>

definition replaceBackslashes :: "string \<Rightarrow> string" where
  "replaceBackslashes p = map (\<lambda>c. if c = backslash then slash else c) p"

text \<open>
  \<^verbatim>\<open>p.replace(/\/+/g, "/")\<close>: scanning from the left, every maximal run of slashes
  is matched greedily and replaced by one slash.
\<close>

function collapseSlashes :: "string \<Rightarrow> string" where
  "collapseSlashes [] = []"
| "collapseSlashes (c # cs) =
     (if c = slash then slash # collapseSlashes (dropWhile (\<lambda>d. d = slash) cs)
      else c # collapseSlashes cs)"
  by pat_completeness auto
termination
  by (relation "measure length") (auto simp: length_dropWhile_le less_Suc_eq_le)

text \<open>\<^verbatim>\<open>p.replace(/\/$/, "")\<close>: a slash at the very end of the input is removed.\<close>

definition stripTrailingSlash :: "string \<Rightarrow> string" where
  "stripTrailingSlash p = (if p \<noteq> [] \<and> last p = slash then butlast p else p)"

definition normalizePath :: "string \<Rightarrow> string" where
  "normalizePath p = stripTrailingSlash (collapseSlashes (replaceBackslashes p))"

subsection \<open>Forward mapping\<close>

record PathMapping =
  local :: string
  device :: string

text \<open>\<^verbatim>\<open>rootPath === "/" ? "" : normalizePath(rootPath)\<close>\<close>

definition effectiveRoot :: "string \<Rightarrow> string" where
  "effectiveRoot rootPath = (if rootPath = ''/'' then [] else normalizePath rootPath)"

text \<open>The standard path joining used without rules and when no rule matches.\<close>

definition standardJoin :: "string \<Rightarrow> string \<Rightarrow> string" where
  "standardJoin normalizedRootPath normalizedLocalRel =
     (if normalizedRootPath = [] then ''/'' @ normalizedLocalRel
      else normalizedRootPath @ ''/'' @ normalizedLocalRel)"

text \<open>
  The body of the \<^verbatim>\<open>for\<close> loop of \<^verbatim>\<open>applyPathMappings\<close> for one rule:
  \<open>Some r\<close> when the body returns \<open>r\<close>, \<open>None\<close> when the loop goes on to the next rule.
\<close>

definition applyMapping :: "string \<Rightarrow> string \<Rightarrow> PathMapping \<Rightarrow> string option" where
  "applyMapping normalizedLocalRel normalizedRootPath mapping =
     (let normalizedLocalPrefix = normalizePath (local mapping);
          normalizedDevicePrefix = normalizePath (device mapping)
      in if normalizedLocalRel = normalizedLocalPrefix then
           (if normalizedDevicePrefix = [] \<or> normalizedDevicePrefix = ''/'' then Some ''/''
            else Some normalizedDevicePrefix)
         else if startsWith normalizedLocalRel (normalizedLocalPrefix @ ''/'') then
           (let relativePart = slice normalizedLocalRel (length normalizedLocalPrefix + 1);
                devicePath =
                  (if normalizedDevicePrefix = [] \<or> normalizedDevicePrefix = ''/''
                   then ''/'' @ relativePart
                   else normalizedDevicePrefix @ ''/'' @ relativePart);
                devicePath' =
                  (if normalizedRootPath \<noteq> [] \<and>
                      \<not> startsWith normalizedDevicePrefix normalizedRootPath
                   then (if normalizedDevicePrefix = [] \<or> normalizedDevicePrefix = ''/''
                         then normalizedRootPath @ ''/'' @ relativePart
                         else normalizedRootPath @ ''/'' @ normalizedDevicePrefix @ ''/'' @
                              relativePart)
                   else devicePath)
            in Some (collapseSlashes devicePath'))
         else None)"

fun applyScan :: "string \<Rightarrow> string \<Rightarrow> PathMapping list \<Rightarrow> string" where
  "applyScan normalizedLocalRel normalizedRootPath [] =
     standardJoin normalizedRootPath normalizedLocalRel"
| "applyScan normalizedLocalRel normalizedRootPath (mapping # rest) =
     (case applyMapping normalizedLocalRel normalizedRootPath mapping of
        Some r \<Rightarrow> r
      | None \<Rightarrow> applyScan normalizedLocalRel normalizedRootPath rest)"

text \<open>The rule list is optional in the source: \<open>None\<close> is \<^verbatim>\<open>undefined\<close>.\<close>

definition applyPathMappings :: "string \<Rightarrow> string \<Rightarrow> PathMapping list option \<Rightarrow> string" where
  "applyPathMappings localRel rootPath mappings =
     (let normalizedLocalRel = normalizePath localRel;
          normalizedRootPath = effectiveRoot rootPath
      in case mappings of
           None \<Rightarrow> standardJoin normalizedRootPath normalizedLocalRel
         | Some ms \<Rightarrow>
             if length ms = 0 then standardJoin normalizedRootPath normalizedLocalRel
             else applyScan normalizedLocalRel normalizedRootPath ms)"

subsection \<open>Reverse mapping\<close>

text \<open>Stripping the root from the normalized device path.\<close>

definition stripRoot :: "string \<Rightarrow> string \<Rightarrow> string" where
  "stripRoot normalizedDevicePath normalizedRootPath =
     (if normalizedRootPath \<noteq> [] \<and>
         startsWith normalizedDevicePath (normalizedRootPath @ ''/'')
      then slice normalizedDevicePath (length normalizedRootPath + 1)
      else if startsWith normalizedDevicePath ''/'' then slice normalizedDevicePath 1
      else normalizedDevicePath)"

definition effectiveDevicePrefix :: "PathMapping \<Rightarrow> string" where
  "effectiveDevicePrefix mapping =
     (let normalizedDevicePrefix = normalizePath (device mapping)
      in if startsWith normalizedDevicePrefix ''/'' then slice normalizedDevicePrefix 1
         else normalizedDevicePrefix)"

text \<open>The body of the \<^verbatim>\<open>for\<close> loop of \<^verbatim>\<open>reversePathMappings\<close> for one rule.\<close>

definition reverseMapping :: "string \<Rightarrow> PathMapping \<Rightarrow> string option" where
  "reverseMapping relativeDevicePath mapping =
     (let normalizedLocalPrefix = normalizePath (local mapping);
          effPrefix = effectiveDevicePrefix mapping
      in if effPrefix = [] \<or> effPrefix = ''/'' then
           Some (normalizedLocalPrefix @ ''/'' @ relativeDevicePath)
         else if relativeDevicePath = effPrefix then Some normalizedLocalPrefix
         else if startsWith relativeDevicePath (effPrefix @ ''/'') then
           Some (normalizedLocalPrefix @ ''/'' @
                 slice relativeDevicePath (length effPrefix + 1))
         else None)"

fun reverseScan :: "string \<Rightarrow> PathMapping list \<Rightarrow> string" where
  "reverseScan relativeDevicePath [] = relativeDevicePath"
| "reverseScan relativeDevicePath (mapping # rest) =
     (case reverseMapping relativeDevicePath mapping of
        Some r \<Rightarrow> r
      | None \<Rightarrow> reverseScan relativeDevicePath rest)"

definition reversePathMappings :: "string \<Rightarrow> string \<Rightarrow> PathMapping list option \<Rightarrow> string" where
  "reversePathMappings devicePath rootPath mappings =
     (let relativeDevicePath = stripRoot (normalizePath devicePath) (effectiveRoot rootPath)
      in case mappings of
           None \<Rightarrow> relativeDevicePath
         | Some ms \<Rightarrow>
             if length ms = 0 then relativeDevicePath
             else reverseScan relativeDevicePath ms)"

subsection \<open>Directory derivation\<close>



text \<open>\<^verbatim>\<open>a.split("/")\<close> and the depth \<^verbatim>\<open>a.split("/").filter((p) => p).length\<close>.\<close>

fun splitSlash :: "string \<Rightarrow> string list" where
  "splitSlash [] = [[]]"
| "splitSlash (c # cs) =
     (if c = slash then [] # splitSlash cs
      else (case splitSlash cs of [] \<Rightarrow> [[c]] | s # ss \<Rightarrow> (c # s) # ss))"







subsection \<open>Predicates of the properties\<close>

text \<open>No two adjacent slashes.\<close>

fun noDoubleSlash :: "string \<Rightarrow> bool" where
  "noDoubleSlash [] = True"
| "noDoubleSlash [c] = True"
| "noDoubleSlash (c # d # cs) = (\<not> (c = slash \<and> d = slash) \<and> noDoubleSlash (d # cs))"

text \<open>The canonical form: no backslash, no two adjacent slashes, no slash at the end.\<close>

definition normalized :: "string \<Rightarrow> bool" where
  "normalized r = (backslash \<notin> set r \<and> noDoubleSlash r \<and> (r = [] \<or> last r \<noteq> slash))"

text \<open>
  A rule matches a normalized local path when the path is the rule's normalized local
  prefix or starts with that prefix and a slash: the two guards of the forward loop.
\<close>

definition ruleMatches :: "string \<Rightarrow> PathMapping \<Rightarrow> bool" where
  "ruleMatches normalizedLocalRel mapping =
     (normalizedLocalRel = normalizePath (local mapping) \<or>
      startsWith normalizedLocalRel (normalizePath (local mapping) @ ''/''))"


text \<open>The non-empty segments of a path between slashes.\<close>

definition segments :: "string \<Rightarrow> string list" where
  "segments a = filter (\<lambda>p. p \<noteq> []) (splitSlash a)"

text \<open>Segments joined by single slashes.\<close>

fun joinSlash :: "string list \<Rightarrow> string" where
  "joinSlash [] = []"
| "joinSlash [s] = s"
| "joinSlash (s # t # ts) = s @ ''/'' @ joinSlash (t # ts)"

text \<open>
  The canonical form in the words of the specification: the input is cut at every slash
  and backslash, the empty pieces are dropped, and what is left is joined by single
  slashes, after one slash when the input begins with a separator. An input without a
  non-empty piece has the empty canonical form.
\<close>

fun splitSep :: "string \<Rightarrow> string list" where
  "splitSep [] = [[]]"
| "splitSep (c # cs) =
     (if c = slash \<or> c = backslash then [] # splitSep cs
      else (case splitSep cs of [] \<Rightarrow> [[c]] | s # ss \<Rightarrow> (c # s) # ss))"

definition pathSegments :: "string \<Rightarrow> string list" where
  "pathSegments p = filter (\<lambda>s. s \<noteq> []) (splitSep p)"

definition leadingSeparator :: "string \<Rightarrow> bool" where
  "leadingSeparator p = (startsWith p ''/'' \<or> startsWith p [backslash])"

definition canonicalPath :: "string \<Rightarrow> string" where
  "canonicalPath p =
     (if pathSegments p = [] then []
      else (if leadingSeparator p then ''/'' else []) @ joinSlash (pathSegments p))"


section \<open>Properties of the normalizer\<close>

lemma startsWith_slash_iff: "startsWith p ''/'' \<longleftrightarrow> (\<exists>t. p = slash # t)"
  by (cases p) (auto simp: startsWith_def)

lemma collapseSlashes_Cons_Cons:
  "collapseSlashes (c # d # cs) =
     (if c = slash \<and> d = slash then collapseSlashes (d # cs) else c # collapseSlashes (d # cs))"
  by simp

lemma collapseSlashes_hd: "\<exists>t. collapseSlashes (c # cs) = c # t"
  by simp

lemma collapseSlashes_single: "collapseSlashes [c] = [c]"
  by simp

declare collapseSlashes.simps(2) [simp del]
declare collapseSlashes_single [simp]

lemma collapseSlashes_eq_Nil [simp]: "collapseSlashes xs = [] \<longleftrightarrow> xs = []"
proof (cases xs)
  case (Cons c cs)
  obtain t where "collapseSlashes (c # cs) = c # t"
    using collapseSlashes_hd by blast
  with Cons show ?thesis by simp
qed simp

lemma noDoubleSlash_collapse: "noDoubleSlash (collapseSlashes xs)"
proof (induction xs rule: induct_list012)
  case (3 x y zs)
  obtain t where t: "collapseSlashes (y # zs) = y # t"
    using collapseSlashes_hd by blast
  show ?case
    using 3(2) unfolding collapseSlashes_Cons_Cons t by auto
qed simp_all

lemma collapseSlashes_id: "noDoubleSlash xs \<Longrightarrow> collapseSlashes xs = xs"
proof (induction xs rule: induct_list012)
  case (3 x y zs)
  then show ?case unfolding collapseSlashes_Cons_Cons by auto
qed simp_all

lemma set_collapseSlashes: "set (collapseSlashes xs) \<subseteq> set xs"
proof (induction xs rule: induct_list012)
  case (3 x y zs)
  then show ?case unfolding collapseSlashes_Cons_Cons by auto
qed simp_all

lemma last_collapseSlashes: "xs \<noteq> [] \<Longrightarrow> last (collapseSlashes xs) = last xs"
proof (induction xs rule: induct_list012)
  case (3 x y zs)
  then show ?case unfolding collapseSlashes_Cons_Cons by auto
qed simp_all

lemma noDoubleSlash_append:
  "noDoubleSlash (xs @ ys) \<Longrightarrow> noDoubleSlash xs \<and> noDoubleSlash ys"
proof (induction xs rule: induct_list012)
  case (2 x)
  then show ?case by (cases ys) auto
qed auto

lemma noDoubleSlash_butlast: "noDoubleSlash xs \<Longrightarrow> noDoubleSlash (butlast xs)"
  by (cases xs rule: rev_cases) (auto dest: noDoubleSlash_append)

lemma noDoubleSlash_snoc2:
  "noDoubleSlash (zs @ [a, b]) \<Longrightarrow> \<not> (a = slash \<and> b = slash)"
  using noDoubleSlash_append [of zs "[a, b]"] by auto

lemma last_butlast_noDouble:
  assumes "noDoubleSlash xs" "xs \<noteq> []" "last xs = slash" "butlast xs \<noteq> []"
  shows "last (butlast xs) \<noteq> slash"
proof -
  obtain ys b where xs: "xs = ys @ [b]" using assms(2) by (cases xs rule: rev_cases) auto
  with assms(4) obtain zs a where ys: "ys = zs @ [a]" by (cases ys rule: rev_cases) auto
  from assms(1,3) noDoubleSlash_snoc2 [of zs a b] show ?thesis
    by (auto simp: xs ys butlast_append)
qed

lemma set_replaceBackslashes: "backslash \<notin> set (replaceBackslashes p)"
  by (auto simp: replaceBackslashes_def)

lemma replaceBackslashes_id: "backslash \<notin> set p \<Longrightarrow> replaceBackslashes p = p"
  by (induction p) (auto simp: replaceBackslashes_def)

lemma normalized_normalizePath: "normalized (normalizePath p)"
proof -
  let ?y = "collapseSlashes (replaceBackslashes p)"
  have nd: "noDoubleSlash ?y" by (rule noDoubleSlash_collapse)
  have nb: "backslash \<notin> set ?y"
    using set_collapseSlashes [of "replaceBackslashes p"] set_replaceBackslashes [of p] by blast
  show ?thesis
  proof (cases "?y \<noteq> [] \<and> last ?y = slash")
    case True
    then have eq: "normalizePath p = butlast ?y"
      by (simp add: normalizePath_def stripTrailingSlash_def)
    have "backslash \<notin> set (butlast ?y)" using nb by (meson in_set_butlastD)
    moreover have "noDoubleSlash (butlast ?y)" using nd by (rule noDoubleSlash_butlast)
    moreover have "butlast ?y = [] \<or> last (butlast ?y) \<noteq> slash"
      using last_butlast_noDouble [OF nd] True by blast
    ultimately show ?thesis unfolding eq normalized_def by blast
  next
    case False
    then have eq: "normalizePath p = ?y"
      by (auto simp: normalizePath_def stripTrailingSlash_def)
    show ?thesis unfolding eq normalized_def using nd nb False by blast
  qed
qed

lemma normalizePath_id: "normalized r \<Longrightarrow> normalizePath r = r"
  unfolding normalized_def normalizePath_def
  by (auto simp: replaceBackslashes_id collapseSlashes_id stripTrailingSlash_def)

lemma normalizePath_idem: "normalizePath (normalizePath p) = normalizePath p"
  by (rule normalizePath_id) (rule normalized_normalizePath)

lemma collapseSlashes_dup:
  "collapseSlashes (xs @ slash # slash # ys) = collapseSlashes (xs @ slash # ys)"
  by (induction xs rule: induct_list012) (auto simp: collapseSlashes_Cons_Cons)

lemma collapseSlashes_snoc_slash:
  "collapseSlashes (q @ [slash]) =
     (if q \<noteq> [] \<and> last q = slash then collapseSlashes q else collapseSlashes q @ [slash])"
  by (induction q rule: induct_list012) (auto simp: collapseSlashes_Cons_Cons)

lemma stripTrailingSlash_collapse_snoc:
  "stripTrailingSlash (collapseSlashes (q @ [slash])) = stripTrailingSlash (collapseSlashes q)"
proof (cases "q \<noteq> [] \<and> last q = slash")
  case True
  then show ?thesis by (simp add: collapseSlashes_snoc_slash)
next
  case False
  then have "collapseSlashes q = [] \<or> last (collapseSlashes q) \<noteq> slash"
    using last_collapseSlashes [of q] by auto
  with False show ?thesis
    by (cases "q = []") (auto simp: collapseSlashes_snoc_slash stripTrailingSlash_def)
qed

lemma set_collapseSlashes_eq: "set (collapseSlashes xs) = set xs"
  by (induction xs rule: induct_list012) (auto simp: collapseSlashes_Cons_Cons)

lemma normalizePath_keeps_leading_slash:
  assumes "startsWith p ''/''" and "\<exists>c\<in>set p. c \<noteq> slash \<and> c \<noteq> backslash"
  shows "startsWith (normalizePath p) ''/''"
proof -
  from assms(1) obtain t where p: "p = slash # t" by (auto simp: startsWith_slash_iff)
  let ?y = "collapseSlashes (replaceBackslashes p)"
  obtain u where y: "?y = slash # u"
    using collapseSlashes_hd [of slash "replaceBackslashes t"] by (auto simp: p replaceBackslashes_def)
  from assms(2) obtain c where c: "c \<in> set p" "c \<noteq> slash" "c \<noteq> backslash" by blast
  then have "c \<in> set (replaceBackslashes p)" by (force simp: replaceBackslashes_def)
  then have "c \<in> set ?y" by (simp add: set_collapseSlashes_eq)
  with c(2) have "u \<noteq> []" unfolding y by auto
  then show ?thesis
    unfolding normalizePath_def y stripTrailingSlash_def startsWith_slash_iff by auto
qed

lemma normalizePath_only_separators:
  assumes "set p \<subseteq> {slash, backslash}"
  shows "normalizePath p = []"
proof -
  have nz: "normalized (normalizePath p)" by (rule normalized_normalizePath)
  have "set (normalizePath p) \<subseteq> set (replaceBackslashes p)"
    unfolding normalizePath_def stripTrailingSlash_def
    using set_collapseSlashes_eq [of "replaceBackslashes p"] by (auto dest: in_set_butlastD)
  also have "\<dots> \<subseteq> {slash}" using assms by (auto simp: replaceBackslashes_def)
  finally have sub: "set (normalizePath p) \<subseteq> {slash}" .
  show ?thesis
  proof (rule ccontr)
    assume ne: "normalizePath p \<noteq> []"
    then have "last (normalizePath p) \<in> set (normalizePath p)" by simp
    with sub have "last (normalizePath p) = slash" by auto
    with nz ne show False by (simp add: normalized_def)
  qed
qed

lemma splitSlash_not_Nil: "splitSlash xs \<noteq> []"
  by (induction xs) (auto split: list.splits)

lemma splitSlash_append:
  "splitSlash (xs @ slash # ys) = splitSlash xs @ splitSlash ys"
proof (induction xs)
  case Nil
  show ?case by simp
next
  case (Cons c xs)
  obtain s ss where "splitSlash xs = s # ss"
    using splitSlash_not_Nil [of xs] by (cases "splitSlash xs") auto
  with Cons show ?case by simp
qed

lemma splitSlash_Cons:
  "splitSlash (x # w) =
     (if x = slash then [] # splitSlash w else (x # hd (splitSlash w)) # tl (splitSlash w))"
  using splitSlash_not_Nil [of w] by (cases "splitSlash w") auto

lemma splitSlash_slash: "splitSlash (slash # w) = [] # splitSlash w"
  by simp

lemma splitSlash_nonslash:
  "x \<noteq> slash \<Longrightarrow> splitSlash (x # w) = (x # hd (splitSlash w)) # tl (splitSlash w)"
  by (simp only: splitSlash_Cons if_False)

lemma splitSlash_hd_tl: "splitSlash w = hd (splitSlash w) # tl (splitSlash w)"
  using splitSlash_not_Nil [of w] by simp

lemma splitSlash_collapse:
  "hd (splitSlash (collapseSlashes w)) = hd (splitSlash w) \<and>
   filter (\<lambda>p. p \<noteq> []) (tl (splitSlash (collapseSlashes w))) =
   filter (\<lambda>p. p \<noteq> []) (tl (splitSlash w))"
proof (induction w rule: induct_list012)
  case 1
  show ?case by simp
next
  case (2 x)
  show ?case by simp
next
  case (3 x y zs)
  let ?c = "collapseSlashes (y # zs)"
  from 3(2) have h: "hd (splitSlash ?c) = hd (splitSlash (y # zs))"
    and t: "filter (\<lambda>p. p \<noteq> []) (tl (splitSlash ?c)) =
            filter (\<lambda>p. p \<noteq> []) (tl (splitSlash (y # zs)))"
    by blast+
  have whole: "filter (\<lambda>p. p \<noteq> []) (splitSlash ?c) = filter (\<lambda>p. p \<noteq> []) (splitSlash (y # zs))"
    using h t splitSlash_hd_tl [of ?c] splitSlash_hd_tl [of "y # zs"]
    by (metis filter.simps(2))
  show ?case
  proof (cases "x = slash \<and> y = slash")
    case True
    then have c: "collapseSlashes (x # y # zs) = ?c" by (simp add: collapseSlashes_Cons_Cons)
    from True h t show ?thesis unfolding c by (simp del: splitSlash.simps add: splitSlash_Cons)
  next
    case False
    then have c: "collapseSlashes (x # y # zs) = x # ?c" by (simp add: collapseSlashes_Cons_Cons)
    show ?thesis
    proof (cases "x = slash")
      case True
      have "splitSlash (x # ?c) = [] # splitSlash ?c"
        unfolding True by (rule splitSlash_slash)
      moreover have "splitSlash (x # y # zs) = [] # splitSlash (y # zs)"
        unfolding True by (rule splitSlash_slash)
      ultimately show ?thesis unfolding c using whole by simp
    next
      case False
      have "splitSlash (x # ?c) = (x # hd (splitSlash ?c)) # tl (splitSlash ?c)"
        using False by (rule splitSlash_nonslash)
      moreover have "splitSlash (x # y # zs) =
          (x # hd (splitSlash (y # zs))) # tl (splitSlash (y # zs))"
        using False by (rule splitSlash_nonslash)
      ultimately show ?thesis unfolding c using h t by simp
    qed
  qed
qed

lemma segments_collapse: "segments (collapseSlashes w) = segments w"
  using splitSlash_collapse [of w] splitSlash_hd_tl [of "collapseSlashes w"] splitSlash_hd_tl [of w]
  unfolding segments_def by (metis filter.simps(2))

lemma segments_stripTrailingSlash: "segments (stripTrailingSlash w) = segments w"
proof (cases "w \<noteq> [] \<and> last w = slash")
  case True
  then have w: "w = butlast w @ [slash]" by (metis append_butlast_last_id)
  have "splitSlash (butlast w @ slash # []) = splitSlash (butlast w) @ splitSlash []"
    by (rule splitSlash_append)
  then have "segments (butlast w @ [slash]) = segments (butlast w)"
    by (simp add: segments_def)
  with w True show ?thesis by (simp add: stripTrailingSlash_def)
next
  case False
  then show ?thesis by (auto simp: stripTrailingSlash_def)
qed

lemma segments_normalizePath: "segments (normalizePath p) = segments (replaceBackslashes p)"
  by (simp add: normalizePath_def segments_stripTrailingSlash segments_collapse)

lemma splitSep_replaceBackslashes: "splitSep p = splitSlash (replaceBackslashes p)"
  by (induction p) (auto simp: replaceBackslashes_def)

lemma pathSegments_segments: "pathSegments p = segments (replaceBackslashes p)"
  by (simp add: pathSegments_def segments_def splitSep_replaceBackslashes)

lemma joinSlash_Cons: "ss \<noteq> [] \<Longrightarrow> joinSlash (s # ss) = s @ slash # joinSlash ss"
  by (cases ss) auto

lemma joinSlash_splitSlash: "joinSlash (splitSlash r) = r"
proof (induction r)
  case Nil
  show ?case by simp
next
  case (Cons c cs)
  show ?case
  proof (cases "c = slash")
    case True
    then show ?thesis
      using Cons splitSlash_not_Nil [of cs] by (simp add: splitSlash_slash joinSlash_Cons)
  next
    case False
    have "splitSlash (c # cs) = (c # hd (splitSlash cs)) # tl (splitSlash cs)"
      using False by (rule splitSlash_nonslash)
    moreover have "joinSlash ((c # hd (splitSlash cs)) # tl (splitSlash cs)) =
        c # joinSlash (hd (splitSlash cs) # tl (splitSlash cs))"
      by (cases "tl (splitSlash cs)") auto
    ultimately show ?thesis using Cons splitSlash_hd_tl [of cs] by simp
  qed
qed

text \<open>A path without a slash at either end and without doubled slashes has no empty segment.\<close>

lemma splitSlash_no_empty:
  "r \<noteq> [] \<Longrightarrow> hd r \<noteq> slash \<Longrightarrow> last r \<noteq> slash \<Longrightarrow> noDoubleSlash r \<Longrightarrow>
   [] \<notin> set (splitSlash r)"
proof (induction r rule: induct_list012)
  case 1
  then show ?case by simp
next
  case (2 x)
  then show ?case by simp
next
  case (3 x y zs)
  from 3(4) have x: "x \<noteq> slash" by simp
  show ?case
  proof (cases "y = slash")
    case True
    from True 3(5) have zs: "zs \<noteq> []" by auto
    with True 3(6) have "hd zs \<noteq> slash" by (cases zs) auto
    moreover from zs 3(5) have "last zs \<noteq> slash" by simp
    moreover from 3(6) have "noDoubleSlash zs" using noDoubleSlash_append [of "[x, y]" zs] by simp
    ultimately have "[] \<notin> set (splitSlash zs)" using 3(1) zs by blast
    moreover have "splitSlash (x # y # zs) = [x] # splitSlash zs"
      using x True splitSlash_nonslash [of x "y # zs"] by (simp add: splitSlash_slash)
    ultimately show ?thesis by simp
  next
    case False
    from 3(5) have "last (y # zs) \<noteq> slash" by simp
    moreover from 3(6) have "noDoubleSlash (y # zs)" by simp
    ultimately have ih: "[] \<notin> set (splitSlash (y # zs))" using 3(2) False by simp
    have "splitSlash (x # y # zs) =
        (x # hd (splitSlash (y # zs))) # tl (splitSlash (y # zs))"
      using x by (rule splitSlash_nonslash)
    moreover have "set (tl (splitSlash (y # zs))) \<subseteq> set (splitSlash (y # zs))"
      by (metis list.set_sel(2) splitSlash_not_Nil subsetI)
    ultimately show ?thesis using ih by auto
  qed
qed

lemma canonical_relative:
  assumes "r \<noteq> []" "hd r \<noteq> slash" "last r \<noteq> slash" "noDoubleSlash r"
  shows "segments r = splitSlash r \<and> r = joinSlash (segments r)"
proof -
  from splitSlash_no_empty [OF assms] have "segments r = splitSlash r"
    unfolding segments_def by (simp add: filter_id_conv) metis
  then show ?thesis by (simp add: joinSlash_splitSlash)
qed

lemma canonical_form:
  assumes "noDoubleSlash r" and "r = [] \<or> last r \<noteq> slash"
  shows "r = (if segments r = [] then []
              else (if startsWith r ''/'' then ''/'' else []) @ joinSlash (segments r))"
proof (cases r)
  case Nil
  then show ?thesis by (simp add: segments_def)
next
  case (Cons c cs)
  show ?thesis
  proof (cases "c = slash")
    case True
    with Cons assms(2) have cs: "cs \<noteq> []" by auto
    with Cons True assms have "hd cs \<noteq> slash" "last cs \<noteq> slash" "noDoubleSlash cs"
      by (cases cs; auto)+
    from canonical_relative [OF cs this] have c: "segments cs = splitSlash cs" "cs = joinSlash (segments cs)"
      by auto
    have "segments r = segments cs"
      by (simp add: Cons True segments_def)
    moreover have "segments cs \<noteq> []" using c(1) splitSlash_not_Nil by simp
    ultimately show ?thesis using c(2) by (simp add: Cons True startsWith_def)
  next
    case False
    with Cons assms have "r \<noteq> []" "hd r \<noteq> slash" "last r \<noteq> slash" "noDoubleSlash r" by auto
    from canonical_relative [OF this] have c: "segments r = splitSlash r" "r = joinSlash (segments r)"
      by auto
    have "segments r \<noteq> []" using c(1) splitSlash_not_Nil by simp
    moreover have "\<not> startsWith r ''/''" using False Cons by (simp add: startsWith_def)
    ultimately show ?thesis using c(2) by simp
  qed
qed

lemma normalizePath_hd:
  assumes "normalizePath p \<noteq> []"
  shows "hd (normalizePath p) = hd (replaceBackslashes p)"
proof -
  let ?q = "replaceBackslashes p" and ?y = "collapseSlashes (replaceBackslashes p)"
  from assms have q: "?q \<noteq> []" by (auto simp: normalizePath_def stripTrailingSlash_def)
  then obtain c cs where cq: "?q = c # cs" by (cases ?q) auto
  obtain t where y: "?y = c # t" using collapseSlashes_hd [of c cs] cq by auto
  show ?thesis
  proof (cases "last ?y = slash")
    case True
    with assms y have "t \<noteq> []" by (auto simp: normalizePath_def stripTrailingSlash_def)
    with True y cq show ?thesis by (simp add: normalizePath_def stripTrailingSlash_def)
  next
    case False
    with y cq show ?thesis by (simp add: normalizePath_def stripTrailingSlash_def)
  qed
qed

lemma leadingSeparator_iff:
  "leadingSeparator p \<longleftrightarrow> startsWith (replaceBackslashes p) ''/''"
  by (cases p) (auto simp: leadingSeparator_def startsWith_def replaceBackslashes_def)

lemma normalizePath_nonempty_iff:
  "normalizePath p \<noteq> [] \<longleftrightarrow> (\<exists>c\<in>set p. c \<noteq> slash \<and> c \<noteq> backslash)"
proof
  assume "normalizePath p \<noteq> []"
  then show "\<exists>c\<in>set p. c \<noteq> slash \<and> c \<noteq> backslash"
    using normalizePath_only_separators [of p] by auto
next
  assume "\<exists>c\<in>set p. c \<noteq> slash \<and> c \<noteq> backslash"
  then obtain c where c: "c \<in> set p" "c \<noteq> slash" "c \<noteq> backslash" by blast
  then have "c \<in> set (replaceBackslashes p)" by (force simp: replaceBackslashes_def)
  then have "c \<in> set (collapseSlashes (replaceBackslashes p))" by (simp add: set_collapseSlashes_eq)
  with c(2) have "c \<in> set (normalizePath p)"
    unfolding normalizePath_def stripTrailingSlash_def
    by (cases "collapseSlashes (replaceBackslashes p)" rule: rev_cases) auto
  then show "normalizePath p \<noteq> []" by auto
qed

lemma normalizePath_startsWith_iff:
  "startsWith (normalizePath p) ''/'' \<longleftrightarrow>
     leadingSeparator p \<and> (\<exists>c\<in>set p. c \<noteq> slash \<and> c \<noteq> backslash)"
proof (cases "normalizePath p = []")
  case True
  then show ?thesis using normalizePath_nonempty_iff [of p] by (simp add: startsWith_def)
next
  case False
  then have "replaceBackslashes p \<noteq> []" by (auto simp: normalizePath_def stripTrailingSlash_def)
  with False normalizePath_hd [OF False] normalizePath_nonempty_iff [of p] show ?thesis
    unfolding leadingSeparator_iff startsWith_slash_iff
    by (cases "normalizePath p"; cases "replaceBackslashes p") auto
qed

lemma normalizePath_canonical: "normalizePath p = canonicalPath p"
proof -
  let ?r = "normalizePath p"
  have n: "normalized ?r" by (rule normalized_normalizePath)
  then have c: "?r = (if segments ?r = [] then []
              else (if startsWith ?r ''/'' then ''/'' else []) @ joinSlash (segments ?r))"
    using canonical_form [of ?r] by (simp add: normalized_def)
  have s: "segments ?r = pathSegments p"
    by (simp add: segments_normalizePath pathSegments_segments)
  show ?thesis
  proof (cases "pathSegments p = []")
    case True
    with c s show ?thesis by (simp add: canonicalPath_def)
  next
    case False
    with s have "?r \<noteq> []" by (auto simp: segments_def)
    then have "startsWith ?r ''/'' \<longleftrightarrow> leadingSeparator p"
      using normalizePath_startsWith_iff [of p] normalizePath_nonempty_iff [of p] by simp
    with c s False show ?thesis by (simp add: canonicalPath_def)
  qed
qed

text \<open>
  Claim C9, as amended. The normalized path is the canonical form of the input: its
  non-empty pieces between separators, joined by single slashes, after one slash exactly
  when the input begins with a slash or a backslash and has a character other than the
  two separators. So the leading slash of such an input is kept, while an input made of
  separators only, such as \<^verbatim>\<open>"/"\<close>, normalizes to the empty string; the result has
  no backslash, no two adjacent slashes and no slash at its end; and the empty string
  stays empty.
\<close>

theorem normalizePath_contract:
  "normalizePath p = canonicalPath p \<and>
   (startsWith (normalizePath p) ''/'' \<longleftrightarrow>
      leadingSeparator p \<and> (\<exists>c\<in>set p. c \<noteq> slash \<and> c \<noteq> backslash)) \<and>
   (startsWith p ''/'' \<and> (\<exists>c\<in>set p. c \<noteq> slash \<and> c \<noteq> backslash)
      \<longrightarrow> startsWith (normalizePath p) ''/'') \<and>
   (set p \<subseteq> {slash, backslash} \<longrightarrow> normalizePath p = []) \<and>
   backslash \<notin> set (normalizePath p) \<and>
   noDoubleSlash (normalizePath p) \<and>
   (normalizePath p = [] \<or> last (normalizePath p) \<noteq> slash) \<and>
   segments (normalizePath p) = pathSegments p \<and>
   normalizePath [] = []"
proof -
  have "normalizePath [] = []"
    by (simp add: normalizePath_def replaceBackslashes_def stripTrailingSlash_def)
  moreover have "segments (normalizePath p) = pathSegments p"
    by (simp add: segments_normalizePath pathSegments_segments)
  ultimately show ?thesis
    using normalizePath_canonical [of p] normalizePath_startsWith_iff [of p]
      normalizePath_keeps_leading_slash [of p] normalizePath_only_separators [of p]
      normalized_normalizePath [of p]
    unfolding normalized_def by blast
qed

theorem normalizePath_contract_witness:
  "startsWith ''/a//b/'' ''/'' \<and> (\<exists>c\<in>set ''/a//b/''. c \<noteq> slash \<and> c \<noteq> backslash) \<and>
   startsWith (normalizePath ''/a//b/'') ''/'' \<and>
   normalizePath ''/a//b/'' = ''/a/b'' \<and>
   set [slash, backslash, slash] \<subseteq> {slash, backslash} \<and>
   normalizePath [slash, backslash, slash] = []"
proof -
  have c: "canonicalPath ''/a//b/'' = ''/a/b''" by code_simp
  have l: "startsWith ''/a//b/'' ''/''" by code_simp
  have n: "\<exists>c\<in>set ''/a//b/''. c \<noteq> slash \<and> c \<noteq> backslash" by simp
  have s: "set [slash, backslash, slash] \<subseteq> {slash, backslash}" by simp
  from normalizePath_contract [of "''/a//b/''"] normalizePath_contract [of "[slash, backslash, slash]"]
    c l n s
  show ?thesis by metis
qed

text \<open>
  Claim C9 as stated fails at the input \<^verbatim>\<open>"/"\<close>: it begins with a slash and its
  normalized form, the empty string, does not.
\<close>

theorem normalizePath_leading_slash_counterexample:
  "startsWith ''/'' ''/'' \<and> \<not> startsWith (normalizePath ''/'') ''/''"
  by (simp add: startsWith_def normalizePath_def replaceBackslashes_def stripTrailingSlash_def)

text \<open>
  Claim C8. Normalizing twice is normalizing once; and a backslash in place of a slash,
  a doubled slash, or one more slash at the end do not change the normalized form.
\<close>

theorem normalizePath_idempotent:
  "normalizePath (normalizePath p) = normalizePath p \<and>
   normalizePath (xs @ backslash # ys) = normalizePath (xs @ slash # ys) \<and>
   normalizePath (xs @ slash # slash # ys) = normalizePath (xs @ slash # ys) \<and>
   normalizePath (p @ [slash]) = normalizePath p"
proof (intro conjI)
  show "normalizePath (normalizePath p) = normalizePath p" by (rule normalizePath_idem)
  show "normalizePath (xs @ backslash # ys) = normalizePath (xs @ slash # ys)"
    by (simp add: normalizePath_def replaceBackslashes_def)
  show "normalizePath (xs @ slash # slash # ys) = normalizePath (xs @ slash # ys)"
    using collapseSlashes_dup [of "replaceBackslashes xs" "replaceBackslashes ys"]
    by (simp add: normalizePath_def replaceBackslashes_def)
  show "normalizePath (p @ [slash]) = normalizePath p"
    using stripTrailingSlash_collapse_snoc [of "replaceBackslashes p"]
    by (simp add: normalizePath_def replaceBackslashes_def)
qed

section \<open>Forward mapping\<close>

lemma normalizePath_slash: "normalizePath ''/'' = []"
  by (simp add: normalizePath_def replaceBackslashes_def stripTrailingSlash_def)

text \<open>
  Claim C4. With an empty rule list the result is the normalized root, a slash and the
  normalized local path; when the root is \<^verbatim>\<open>"/"\<close> or normalizes to the empty string,
  that is a slash and the normalized local path.
\<close>

theorem applyPathMappings_no_rules:
  "applyPathMappings localRel rootPath (Some []) =
     normalizePath rootPath @ ''/'' @ normalizePath localRel \<and>
   (rootPath = ''/'' \<or> normalizePath rootPath = [] \<longrightarrow>
      applyPathMappings localRel rootPath (Some []) = ''/'' @ normalizePath localRel)"
  by (auto simp: applyPathMappings_def effectiveRoot_def standardJoin_def normalizePath_slash
      Let_def)

theorem applyPathMappings_no_rules_witness:
  "(''/'' = ''/'' \<or> normalizePath ''/'' = []) \<and>
   applyPathMappings ''a//b/'' ''/'' (Some []) = ''/a/b''"
proof -
  have "normalizePath ''a//b/'' = ''a/b''" by code_simp
  with applyPathMappings_no_rules [of "''a//b/''" "''/''"] show ?thesis
    by (simp add: normalizePath_slash)
qed

text \<open>
  Claim C5. The rule \<^verbatim>\<open>{local: "src", device: "/"}\<close> under the root \<^verbatim>\<open>"/"\<close> maps
  \<^verbatim>\<open>src/main.py\<close> to \<^verbatim>\<open>/main.py\<close> and back.
\<close>

theorem round_trip_src_rule:
  "applyPathMappings ''src/main.py'' ''/'' (Some [\<lparr>local = ''src'', device = ''/''\<rparr>]) = ''/main.py'' \<and>
   reversePathMappings ''/main.py'' ''/'' (Some [\<lparr>local = ''src'', device = ''/''\<rparr>]) = ''src/main.py''"
  by code_simp

lemma applyMapping_None_iff: "applyMapping L R m = None \<longleftrightarrow> \<not> ruleMatches L m"
  by (auto simp: applyMapping_def ruleMatches_def Let_def)

lemma applyScan_skip:
  "\<forall>r\<in>set pre. applyMapping L R r = None \<Longrightarrow> applyScan L R (pre @ rest) = applyScan L R rest"
  by (induction pre) auto

lemma applyScan_hit:
  "applyMapping L R m = Some r \<Longrightarrow> applyScan L R (m # rest) = r"
  by simp

text \<open>
  Claim C3. When two rules of the list match the normalized local path and no rule before
  the first of them does, the result is what the loop body returns for that first rule,
  which is also the result of the list holding that rule alone; the second rule and the
  rules around it play no part.
\<close>

theorem applyPathMappings_first_match_wins:
  assumes "\<forall>r\<in>set pre. \<not> ruleMatches (normalizePath localRel) r"
    and "ruleMatches (normalizePath localRel) m1"
    and "ruleMatches (normalizePath localRel) m2"
  shows "applyMapping (normalizePath localRel) (effectiveRoot rootPath) m1 =
           Some (applyPathMappings localRel rootPath (Some (pre @ m1 # mid @ m2 # post))) \<and>
         applyPathMappings localRel rootPath (Some (pre @ m1 # mid @ m2 # post)) =
           applyPathMappings localRel rootPath (Some [m1])"
proof -
  let ?L = "normalizePath localRel" and ?R = "effectiveRoot rootPath"
  from assms(2) obtain r1 where r1: "applyMapping ?L ?R m1 = Some r1"
    using applyMapping_None_iff [of ?L ?R m1] by auto
  from assms(1) have "\<forall>r\<in>set pre. applyMapping ?L ?R r = None"
    by (simp add: applyMapping_None_iff)
  then have "applyScan ?L ?R (pre @ m1 # mid @ m2 # post) = r1"
    using applyScan_skip [of pre ?L ?R "m1 # mid @ m2 # post"] r1 by simp
  then show ?thesis using r1 by (simp add: applyPathMappings_def)
qed

theorem applyPathMappings_first_match_wins_witness:
  "\<not> ruleMatches (normalizePath ''src/app/main.py'') \<lparr>local = ''lib'', device = ''/lib''\<rparr> \<and>
   ruleMatches (normalizePath ''src/app/main.py'') \<lparr>local = ''src'', device = ''/''\<rparr> \<and>
   ruleMatches (normalizePath ''src/app/main.py'') \<lparr>local = ''src/app'', device = ''/x''\<rparr> \<and>
   applyPathMappings ''src/app/main.py'' ''/''
     (Some ([\<lparr>local = ''lib'', device = ''/lib''\<rparr>] @ \<lparr>local = ''src'', device = ''/''\<rparr> # [] @
            \<lparr>local = ''src/app'', device = ''/x''\<rparr> # [])) = ''/app/main.py'' \<and>
   applyPathMappings ''src/app/main.py'' ''/'' (Some [\<lparr>local = ''src/app'', device = ''/x''\<rparr>]) =
     ''/x/main.py''"
proof -
  have a: "\<forall>r\<in>set [\<lparr>local = ''lib'', device = ''/lib''\<rparr>].
      \<not> ruleMatches (normalizePath ''src/app/main.py'') r"
    by code_simp
  have b: "ruleMatches (normalizePath ''src/app/main.py'') \<lparr>local = ''src'', device = ''/''\<rparr>"
    by code_simp
  have c: "ruleMatches (normalizePath ''src/app/main.py'') \<lparr>local = ''src/app'', device = ''/x''\<rparr>"
    by code_simp
  have d: "applyPathMappings ''src/app/main.py'' ''/'' (Some [\<lparr>local = ''src'', device = ''/''\<rparr>]) =
    ''/app/main.py''"
    by code_simp
  have e: "applyPathMappings ''src/app/main.py'' ''/''
      (Some [\<lparr>local = ''src/app'', device = ''/x''\<rparr>]) = ''/x/main.py''"
    by code_simp
  have a': "\<not> ruleMatches (normalizePath ''src/app/main.py'') \<lparr>local = ''lib'', device = ''/lib''\<rparr>"
    using a by simp
  from applyPathMappings_first_match_wins [OF a b c, of "''/''" "[]" "[]"] a' b c d e
  show ?thesis by presburger
qed

lemma collapseSlashes_startsWith:
  "startsWith xs ''/'' \<Longrightarrow> startsWith (collapseSlashes xs) ''/''"
  using collapseSlashes_hd by (fastforce simp: startsWith_slash_iff)

lemma noDoubleSlash_appendI:
  "noDoubleSlash xs \<Longrightarrow> noDoubleSlash ys \<Longrightarrow>
   xs = [] \<or> ys = [] \<or> last xs \<noteq> slash \<or> hd ys \<noteq> slash \<Longrightarrow> noDoubleSlash (xs @ ys)"
proof (induction xs rule: induct_list012)
  case (2 x)
  then show ?case by (cases ys) auto
qed auto

lemma normalized_Nil: "normalized []"
  by (simp add: normalized_def)

lemma normalized_effectiveRoot: "normalized (effectiveRoot rootPath)"
  by (simp add: effectiveRoot_def normalized_Nil normalized_normalizePath)

lemma startsWith_append: "startsWith (xs @ ys) xs"
  by (simp add: startsWith_def)

lemma startsWith_appendD: "startsWith s t \<Longrightarrow> s = t @ slice s (length t)"
  by (auto simp: startsWith_def slice_def prefix_def)

text \<open>The remainder of a normalized path after a prefix and a slash.\<close>

lemma normalized_remainder:
  assumes "normalized L" and "startsWith L (P @ ''/'')"
  shows "noDoubleSlash (slash # slice L (length P + 1))"
proof -
  from startsWith_appendD [OF assms(2)] have "L = P @ slash # slice L (length P + 1)" by simp
  with assms(1) have "noDoubleSlash (P @ slash # slice L (length P + 1))"
    by (simp add: normalized_def)
  then show ?thesis by (blast dest: noDoubleSlash_append)
qed

lemma noDoubleSlash_join:
  assumes "normalized D" and "D \<noteq> []" and "noDoubleSlash (slash # rel)"
  shows "noDoubleSlash (D @ ''/'' @ rel)"
  using noDoubleSlash_appendI [of D "slash # rel"] assms by (simp add: normalized_def)

lemma prefix_not_exact: "startsWith L (P @ ''/'') \<Longrightarrow> L \<noteq> P"
  by (auto simp: startsWith_def prefix_def)

lemma applyMapping_prefix:
  assumes "startsWith L (normalizePath (local m) @ ''/'')" and "R \<noteq> []"
  shows "applyMapping L R m =
     Some (collapseSlashes
       (if startsWith (normalizePath (device m)) R
        then normalizePath (device m) @ ''/'' @ slice L (length (normalizePath (local m)) + 1)
        else R @ ''/'' @ normalizePath (device m) @ ''/'' @
             slice L (length (normalizePath (local m)) + 1)))"
proof -
  have ne: "L \<noteq> normalizePath (local m)" using assms(1) by (rule prefix_not_exact)
  have D: "normalizePath (device m) \<noteq> ''/''"
    using normalized_normalizePath [of "device m"] by (auto simp: normalized_def)
  have dup: "collapseSlashes (R @ slash # slash # t) = collapseSlashes (R @ slash # t)" for t
    by (rule collapseSlashes_dup)
  have nopre: "\<not> startsWith [] R" using assms(2) by (simp add: startsWith_def)
  show ?thesis
    using ne assms D nopre by (auto simp: applyMapping_def Let_def dup)
qed

lemma collapseSlashes_append_normalized:
  "noDoubleSlash xs \<Longrightarrow> xs \<noteq> [] \<Longrightarrow> last xs \<noteq> slash \<Longrightarrow>
   collapseSlashes (xs @ ys) = xs @ collapseSlashes ys"
proof (induction xs rule: induct_list012)
  case 1
  then show ?case by simp
next
  case (2 x)
  then show ?case by (simp add: collapseSlashes.simps(2))
next
  case (3 x y zs)
  then have "collapseSlashes ((y # zs) @ ys) = (y # zs) @ collapseSlashes ys" by simp
  moreover from 3(3) have "\<not> (x = slash \<and> y = slash)" by simp
  ultimately show ?case
    using collapseSlashes_Cons_Cons [of x y "zs @ ys"] by auto
qed

lemma collapse_root_prefix:
  assumes "effectiveRoot rootPath \<noteq> []"
  shows "startsWith (collapseSlashes (effectiveRoot rootPath @ t)) (effectiveRoot rootPath)"
proof -
  have "normalized (effectiveRoot rootPath)" by (rule normalized_effectiveRoot)
  with assms have "collapseSlashes (effectiveRoot rootPath @ t) =
      effectiveRoot rootPath @ collapseSlashes t"
    using collapseSlashes_append_normalized [of "effectiveRoot rootPath" t]
    by (simp add: normalized_def)
  then show ?thesis by (simp add: startsWith_def)
qed

text \<open>
  Claim C7. For the first matching rule, matching by prefix, under a non-empty effective
  root: when the rule's normalized device prefix starts with the root, the result is the
  device prefix, a slash and the remainder, without the root; otherwise it is the root,
  a slash, the device prefix, a slash and the remainder, with every run of slashes
  collapsed. In both cases the result starts with the root and has no two adjacent
  slashes.
\<close>

theorem applyPathMappings_root_prepended:
  assumes "\<forall>r\<in>set pre. \<not> ruleMatches (normalizePath localRel) r"
    and "startsWith (normalizePath localRel) (normalizePath (local m) @ ''/'')"
    and "effectiveRoot rootPath \<noteq> []"
  shows "applyPathMappings localRel rootPath (Some (pre @ m # post)) =
     (if startsWith (normalizePath (device m)) (effectiveRoot rootPath)
      then normalizePath (device m) @ ''/'' @
           slice (normalizePath localRel) (length (normalizePath (local m)) + 1)
      else collapseSlashes
            (effectiveRoot rootPath @ ''/'' @ normalizePath (device m) @ ''/'' @
             slice (normalizePath localRel) (length (normalizePath (local m)) + 1))) \<and>
     startsWith (applyPathMappings localRel rootPath (Some (pre @ m # post)))
       (effectiveRoot rootPath) \<and>
     noDoubleSlash (applyPathMappings localRel rootPath (Some (pre @ m # post)))"
proof -
  let ?L = "normalizePath localRel" and ?R = "effectiveRoot rootPath"
  let ?D = "normalizePath (device m)"
  let ?rel = "slice ?L (length (normalizePath (local m)) + 1)"
  let ?res = "collapseSlashes (if startsWith ?D ?R then ?D @ ''/'' @ ?rel
      else ?R @ ''/'' @ ?D @ ''/'' @ ?rel)"
  have m: "applyMapping ?L ?R m = Some ?res"
    using applyMapping_prefix [OF assms(2,3)] .
  from assms(1) have "\<forall>r\<in>set pre. applyMapping ?L ?R r = None"
    by (simp add: applyMapping_None_iff)
  then have "applyScan ?L ?R (pre @ m # post) = ?res"
    using applyScan_skip [of pre ?L ?R "m # post"] m by simp
  then have res: "applyPathMappings localRel rootPath (Some (pre @ m # post)) = ?res"
    by (simp add: applyPathMappings_def)
  have nd: "noDoubleSlash ?res" by (rule noDoubleSlash_collapse)
  have "collapseSlashes (?D @ ''/'' @ ?rel) = ?D @ ''/'' @ ?rel" if "startsWith ?D ?R"
  proof -
    from that assms(3) have "?D \<noteq> []" by (auto simp: startsWith_def)
    then have "noDoubleSlash (?D @ ''/'' @ ?rel)"
      using noDoubleSlash_join [OF normalized_normalizePath _ normalized_remainder
          [OF normalized_normalizePath assms(2)]] by blast
    then show ?thesis by (rule collapseSlashes_id)
  qed
  moreover have "startsWith ?res ?R"
  proof (cases "startsWith ?D ?R")
    case True
    then have "startsWith (?D @ ''/'' @ ?rel) ?R" by (simp add: startsWith_def)
    then have "startsWith (collapseSlashes (?D @ ''/'' @ ?rel)) ?R"
      using calculation True by simp
    with True show ?thesis by simp
  next
    case False
    then show ?thesis using collapse_root_prefix [OF assms(3)] by simp
  qed
  ultimately show ?thesis using res nd by auto
qed



theorem applyPathMappings_root_prepended_witness:
  "\<not> ruleMatches (normalizePath ''src/main.py'') \<lparr>local = ''lib'', device = ''/lib''\<rparr> \<and>
   startsWith (normalizePath ''src/main.py'') (normalizePath (local \<lparr>local = ''src'', device = ''app''\<rparr>) @ ''/'') \<and>
   effectiveRoot ''/flash'' \<noteq> [] \<and>
   \<not> startsWith (normalizePath (device \<lparr>local = ''src'', device = ''app''\<rparr>)) (effectiveRoot ''/flash'') \<and>
   applyPathMappings ''src/main.py'' ''/flash''
     (Some ([\<lparr>local = ''lib'', device = ''/lib''\<rparr>] @ \<lparr>local = ''src'', device = ''app''\<rparr> # [])) =
     ''/flash/app/main.py'' \<and>
   startsWith (normalizePath ''src/main.py'')
     (normalizePath (local \<lparr>local = ''src'', device = ''/flash/app''\<rparr>) @ ''/'') \<and>
   startsWith (normalizePath (device \<lparr>local = ''src'', device = ''/flash/app''\<rparr>)) (effectiveRoot ''/flash'') \<and>
   applyPathMappings ''src/main.py'' ''/flash''
     (Some ([\<lparr>local = ''lib'', device = ''/lib''\<rparr>] @ \<lparr>local = ''src'', device = ''/flash/app''\<rparr> # [])) =
     ''/flash/app/main.py''"
proof -
  let ?m1 = "\<lparr>local = ''src'', device = ''app''\<rparr>"
  let ?m2 = "\<lparr>local = ''src'', device = ''/flash/app''\<rparr>"
  have a: "\<forall>r\<in>set [\<lparr>local = ''lib'', device = ''/lib''\<rparr>]. \<not> ruleMatches (normalizePath ''src/main.py'') r"
    by code_simp
  have b1: "startsWith (normalizePath ''src/main.py'') (normalizePath (local ?m1) @ ''/'')"
    by code_simp
  have b2: "startsWith (normalizePath ''src/main.py'') (normalizePath (local ?m2) @ ''/'')"
    by code_simp
  have c: "effectiveRoot ''/flash'' \<noteq> []" by code_simp
  have d1: "\<not> startsWith (normalizePath (device ?m1)) (effectiveRoot ''/flash'')" by code_simp
  have d2: "startsWith (normalizePath (device ?m2)) (effectiveRoot ''/flash'')" by code_simp
  have e1: "collapseSlashes (effectiveRoot ''/flash'' @ ''/'' @ normalizePath (device ?m1) @ ''/'' @
      slice (normalizePath ''src/main.py'') (length (normalizePath (local ?m1)) + 1)) =
      ''/flash/app/main.py''"
    by code_simp
  have e2: "normalizePath (device ?m2) @ ''/'' @
      slice (normalizePath ''src/main.py'') (length (normalizePath (local ?m2)) + 1) =
      ''/flash/app/main.py''"
    by code_simp
  have a': "\<not> ruleMatches (normalizePath ''src/main.py'') \<lparr>local = ''lib'', device = ''/lib''\<rparr>"
    using a by simp
  from applyPathMappings_root_prepended [OF a b1 c, of "[]"]
    applyPathMappings_root_prepended [OF a b2 c, of "[]"] a' b1 b2 c d1 d2 e1 e2
  show ?thesis by presburger
qed

lemma standardJoin_absolute:
  "R = [] \<or> startsWith R ''/'' \<Longrightarrow> startsWith (standardJoin R L) ''/''"
  by (auto simp: standardJoin_def startsWith_slash_iff)

lemma applyMapping_absolute:
  assumes "applyMapping L R m = Some r"
    and "R = [] \<or> startsWith R ''/''"
    and "normalizePath (device m) = [] \<or> startsWith (normalizePath (device m)) ''/''"
  shows "startsWith r ''/''"
proof (cases "L = normalizePath (local m)")
  case True
  with assms(1,3) show ?thesis
    by (auto simp: applyMapping_def Let_def startsWith_slash_iff split: if_splits)
next
  case False
  with assms(1) obtain x where r: "r = collapseSlashes x" and
    x: "x = ''/'' @ slice L (length (normalizePath (local m)) + 1) \<or>
        x = normalizePath (device m) @ ''/'' @ slice L (length (normalizePath (local m)) + 1) \<and>
          normalizePath (device m) \<noteq> [] \<or>
        (\<exists>t. x = R @ t) \<and> R \<noteq> []"
    by (auto simp: applyMapping_def Let_def split: if_splits)
  from x assms(2,3) have "startsWith x ''/''"
    by (auto simp: startsWith_slash_iff)
  then show ?thesis unfolding r by (rule collapseSlashes_startsWith)
qed

lemma applyScan_absolute:
  assumes "R = [] \<or> startsWith R ''/''"
    and "\<forall>m\<in>set ms. normalizePath (device m) = [] \<or> startsWith (normalizePath (device m)) ''/''"
  shows "startsWith (applyScan L R ms) ''/''"
  using assms(2)
proof (induction ms)
  case Nil
  show ?case using standardJoin_absolute [OF assms(1)] by simp
next
  case (Cons m ms)
  show ?case
  proof (cases "applyMapping L R m")
    case None
    with Cons show ?thesis by simp
  next
    case (Some r)
    with applyMapping_absolute [OF Some assms(1)] Cons.prems show ?thesis by simp
  qed
qed

text \<open>
  Claim C1, as amended. The result starts with a slash whenever the effective root is
  empty or starts with a slash and the normalized device prefix of every rule is empty or
  starts with a slash.
\<close>

theorem applyPathMappings_absolute:
  assumes "effectiveRoot rootPath = [] \<or> startsWith (effectiveRoot rootPath) ''/''"
    and "\<forall>ms\<in>set_option mappings. \<forall>m\<in>set ms.
           normalizePath (device m) = [] \<or> startsWith (normalizePath (device m)) ''/''"
  shows "startsWith (applyPathMappings localRel rootPath mappings) ''/''"
proof (cases mappings)
  case None
  then show ?thesis
    using standardJoin_absolute [OF assms(1)] by (simp add: applyPathMappings_def)
next
  case (Some ms)
  with assms(2) have "\<forall>m\<in>set ms.
      normalizePath (device m) = [] \<or> startsWith (normalizePath (device m)) ''/''"
    by simp
  from applyScan_absolute [OF assms(1) this] standardJoin_absolute [OF assms(1)] Some
  show ?thesis by (simp add: applyPathMappings_def Let_def)
qed

theorem applyPathMappings_absolute_witness:
  "(effectiveRoot ''/flash'' = [] \<or> startsWith (effectiveRoot ''/flash'') ''/'') \<and>
   (normalizePath (device \<lparr>local = ''src'', device = ''/app''\<rparr>) = [] \<or>
    startsWith (normalizePath (device \<lparr>local = ''src'', device = ''/app''\<rparr>)) ''/'') \<and>
   startsWith (applyPathMappings ''src/main.py'' ''/flash'' (Some [\<lparr>local = ''src'', device = ''/app''\<rparr>])) ''/''"
proof -
  have a: "effectiveRoot ''/flash'' = [] \<or> startsWith (effectiveRoot ''/flash'') ''/''"
    by code_simp
  have b: "\<forall>ms\<in>set_option (Some [\<lparr>local = ''src'', device = ''/app''\<rparr>]). \<forall>m\<in>set ms.
      normalizePath (device m) = [] \<or> startsWith (normalizePath (device m)) ''/''"
    by code_simp
  have b': "normalizePath (device \<lparr>local = ''src'', device = ''/app''\<rparr>) = [] \<or>
      startsWith (normalizePath (device \<lparr>local = ''src'', device = ''/app''\<rparr>)) ''/''"
    using b by simp
  from applyPathMappings_absolute [OF a b] a b' show ?thesis by blast
qed

text \<open>
  Claim C1 as stated fails for a relative root and for a relative device prefix: without
  rules the root \<^verbatim>\<open>"flash"\<close> maps \<^verbatim>\<open>main.py\<close> to \<^verbatim>\<open>flash/main.py\<close>, and under
  the root \<^verbatim>\<open>"/"\<close> the rule \<^verbatim>\<open>{local: "src", device: "app"}\<close> maps
  \<^verbatim>\<open>src/main.py\<close> to \<^verbatim>\<open>app/main.py\<close>.
\<close>

theorem applyPathMappings_absolute_counterexample:
  "\<not> startsWith (applyPathMappings ''main.py'' ''flash'' (Some [])) ''/'' \<and>
   \<not> startsWith
     (applyPathMappings ''src/main.py'' ''/'' (Some [\<lparr>local = ''src'', device = ''app''\<rparr>])) ''/''"
  by code_simp

section \<open>Reverse mapping\<close>

lemma reverseScan_skip:
  "\<forall>r\<in>set pre. reverseMapping rel r = None \<Longrightarrow>
   reverseScan rel (pre @ rest) = reverseScan rel rest"
  by (induction pre) auto

text \<open>
  Claim C2. When the scan reaches a rule whose device prefix, normalized and without its
  leading slash, is empty (no earlier rule has returned), the result is that rule's
  normalized local prefix, a slash and the device path without the root, whatever the rules
  after it are.
\<close>

theorem reversePathMappings_root_rule:
  assumes "\<forall>r\<in>set pre.
      reverseMapping (stripRoot (normalizePath devicePath) (effectiveRoot rootPath)) r = None"
    and "effectiveDevicePrefix m = []"
  shows "reversePathMappings devicePath rootPath (Some (pre @ m # post)) =
     normalizePath (local m) @ ''/'' @
     stripRoot (normalizePath devicePath) (effectiveRoot rootPath)"
proof -
  let ?rel = "stripRoot (normalizePath devicePath) (effectiveRoot rootPath)"
  have "reverseMapping ?rel m = Some (normalizePath (local m) @ ''/'' @ ?rel)"
    using assms(2) by (simp add: reverseMapping_def)
  then have "reverseScan ?rel (pre @ m # post) = normalizePath (local m) @ ''/'' @ ?rel"
    using reverseScan_skip [OF assms(1), of "m # post"] by simp
  then show ?thesis by (simp add: reversePathMappings_def)
qed


theorem reversePathMappings_root_rule_witness:
  "reverseMapping (stripRoot (normalizePath ''/main.py'') (effectiveRoot ''/''))
     \<lparr>local = ''lib'', device = ''/lib''\<rparr> = None \<and>
   effectiveDevicePrefix \<lparr>local = ''src'', device = ''/''\<rparr> = [] \<and>
   reversePathMappings ''/main.py'' ''/''
     (Some ([\<lparr>local = ''lib'', device = ''/lib''\<rparr>] @ \<lparr>local = ''src'', device = ''/''\<rparr> #
            [\<lparr>local = ''boot'', device = ''/main.py''\<rparr>])) = ''src/main.py'' \<and>
   reversePathMappings ''/main.py'' ''/'' (Some [\<lparr>local = ''boot'', device = ''/main.py''\<rparr>]) =
     ''boot''"
proof -
  have a: "\<forall>r\<in>set [\<lparr>local = ''lib'', device = ''/lib''\<rparr>].
      reverseMapping (stripRoot (normalizePath ''/main.py'') (effectiveRoot ''/'')) r = None"
    by code_simp
  have b: "effectiveDevicePrefix \<lparr>local = ''src'', device = ''/''\<rparr> = []"
    by code_simp
  have c: "normalizePath (local \<lparr>local = ''src'', device = ''/''\<rparr>) @ ''/'' @
      stripRoot (normalizePath ''/main.py'') (effectiveRoot ''/'') = ''src/main.py''"
    by code_simp
  have d: "reversePathMappings ''/main.py'' ''/''
      (Some [\<lparr>local = ''boot'', device = ''/main.py''\<rparr>]) = ''boot''"
    by code_simp
  have a': "reverseMapping (stripRoot (normalizePath ''/main.py'') (effectiveRoot ''/''))
      \<lparr>local = ''lib'', device = ''/lib''\<rparr> = None"
    using a by simp
  from reversePathMappings_root_rule [OF a b, of "[\<lparr>local = ''boot'', device = ''/main.py''\<rparr>]"]
    a' b c d
  show ?thesis by presburger
qed

lemma normalized_join:
  assumes "normalized R" and "normalized L" and "L \<noteq> []" and "\<not> startsWith L ''/''"
  shows "normalized (R @ ''/'' @ L)"
proof -
  from assms(3,4) have hd: "hd L \<noteq> slash" by (cases L) (auto simp: startsWith_slash_iff)
  from assms(2,3) hd have "noDoubleSlash (slash # L)"
    by (cases L) (auto simp: normalized_def)
  then have "noDoubleSlash (R @ slash # L)"
    using noDoubleSlash_appendI [of R "slash # L"] assms(1) by (auto simp: normalized_def)
  with assms(1,2,3) show ?thesis by (auto simp: normalized_def)
qed

lemma stripRoot_join:
  assumes "\<not> startsWith L ''/''" 
  shows "stripRoot (R @ ''/'' @ L) R = L"
proof (cases "R = []")
  case True
  then show ?thesis by (simp add: stripRoot_def startsWith_def slice_def)
next
  case False
  then show ?thesis by (simp add: stripRoot_def startsWith_def slice_def)
qed

text \<open>
  Claim C10, as amended. Without rules (an empty list or none), mapping a local path whose
  normalized form does not start with a slash and then mapping back gives the normalized
  local path, provided that form is not empty or the effective root is empty.
\<close>

theorem no_rules_round_trip:
  assumes "\<not> startsWith (normalizePath localRel) ''/''"
    and "normalizePath localRel \<noteq> [] \<or> effectiveRoot rootPath = []"
  shows "reversePathMappings (applyPathMappings localRel rootPath (Some [])) rootPath (Some []) =
           normalizePath localRel \<and>
         reversePathMappings (applyPathMappings localRel rootPath None) rootPath None =
           normalizePath localRel"
proof -
  let ?L = "normalizePath localRel" and ?R = "effectiveRoot rootPath"
  have join: "standardJoin ?R ?L = ?R @ ''/'' @ ?L" by (simp add: standardJoin_def)
  have "stripRoot (normalizePath (?R @ ''/'' @ ?L)) ?R = ?L"
  proof (cases "?L = []")
    case True
    with assms(2) have "?R = []" by simp
    with True show ?thesis
      by (simp add: normalizePath_slash stripRoot_def startsWith_def)
  next
    case False
    have "normalized (?R @ ''/'' @ ?L)"
      using normalized_join [OF normalized_effectiveRoot normalized_normalizePath False assms(1)] .
    then have "normalizePath (?R @ ''/'' @ ?L) = ?R @ ''/'' @ ?L" by (rule normalizePath_id)
    then show ?thesis using stripRoot_join [OF assms(1)] by simp
  qed
  then show ?thesis
    by (simp add: reversePathMappings_def applyPathMappings_def join)
qed

theorem no_rules_round_trip_witness:
  "\<not> startsWith (normalizePath ''a//b.py'') ''/'' \<and>
   normalizePath ''a//b.py'' \<noteq> [] \<and>
   reversePathMappings (applyPathMappings ''a//b.py'' ''/flash/'' (Some [])) ''/flash/'' (Some []) =
     ''a/b.py''"
proof -
  have a: "\<not> startsWith (normalizePath ''a//b.py'') ''/''" by code_simp
  have b: "normalizePath ''a//b.py'' \<noteq> [] \<or> effectiveRoot ''/flash/'' = []" by code_simp
  have c: "normalizePath ''a//b.py'' = ''a/b.py''" by code_simp
  have b': "normalizePath ''a//b.py'' \<noteq> []" by code_simp
  from no_rules_round_trip [OF a b] a b' c show ?thesis by metis
qed

text \<open>
  Claim C10 as stated fails at the empty local path under the root \<^verbatim>\<open>"/flash"\<close>: it is
  mapped to \<^verbatim>\<open>"/flash/"\<close>, which maps back to \<^verbatim>\<open>"flash"\<close>.
\<close>

theorem no_rules_round_trip_counterexample:
  "\<not> startsWith (normalizePath '''') ''/'' \<and>
   reversePathMappings (applyPathMappings '''' ''/flash'' (Some [])) ''/flash'' (Some []) \<noteq>
     normalizePath ''''"
  by code_simp

section \<open>Directory derivation\<close>


































lemma standardJoin_noDoubleSlash:
  assumes "normalized R" and "normalized L" and "\<not> startsWith L ''/''"
  shows "noDoubleSlash (standardJoin R L)"
proof -
  from assms(2,3) have sl: "noDoubleSlash (slash # L)"
    by (cases L) (auto simp: normalized_def startsWith_def)
  show ?thesis
  proof (cases "R = []")
    case True
    with sl show ?thesis by (simp add: standardJoin_def)
  next
    case False
    with assms(1) sl have "noDoubleSlash (R @ slash # L)"
      using noDoubleSlash_appendI [of R "slash # L"] by (auto simp: normalized_def)
    with False show ?thesis by (simp add: standardJoin_def)
  qed
qed

lemma applyMapping_noDoubleSlash:
  "applyMapping L R m = Some x \<Longrightarrow> noDoubleSlash x"
  using normalized_normalizePath [of "device m"]
  by (auto simp: applyMapping_def Let_def normalized_def noDoubleSlash_collapse split: if_splits)

lemma applyScan_noDoubleSlash:
  assumes "normalized R" and "normalized L" and "\<not> startsWith L ''/''"
  shows "noDoubleSlash (applyScan L R ms)"
proof (induction ms)
  case Nil
  show ?case using standardJoin_noDoubleSlash [OF assms] by simp
next
  case (Cons m ms)
  then show ?case
    by (cases "applyMapping L R m") (auto dest: applyMapping_noDoubleSlash)
qed

text \<open>
  A relative local path is mapped to a device path without doubled slashes, whatever the
  root and the rules are.
\<close>

lemma applyPathMappings_noDoubleSlash:
  assumes "\<not> startsWith (normalizePath localRel) ''/''"
  shows "noDoubleSlash (applyPathMappings localRel rootPath mappings)"
  using standardJoin_noDoubleSlash [OF normalized_effectiveRoot normalized_normalizePath assms]
    applyScan_noDoubleSlash [OF normalized_effectiveRoot normalized_normalizePath assms]
  by (cases mappings) (auto simp: applyPathMappings_def Let_def)




end
